theory Spec2Isabelle
  imports Complex_Main
begin

section \<open>Numbers, durations and timestamps\<close>

text \<open>
  The analytics tools of \<^verbatim>\<open>tools/tools.py\<close> compute with Python floats, with
  \<^verbatim>\<open>datetime.timedelta\<close> values and with pandas timestamps. A finite float is
  modelled by the exact rational it stands for, so comparisons are the comparisons of the
  values and arithmetic is exact; \<^verbatim>\<open>float('inf')\<close> is a value of its own, and a
  missing number (NaN, the value \<^verbatim>\<open>pd.notna\<close> rejects) is \<open>None\<close> of an option.
  A \<^verbatim>\<open>timedelta\<close> is its integer number of microseconds, a timestamp its integer
  number of nanoseconds since 1970-01-01T00:00:00 (a Thursday), and the missing timestamp
  \<^verbatim>\<open>NaT\<close> is a value of its own.

  The program rounds every quotient and product to a double; here they are exact. Counts,
  orders and bounds do not see the difference, but a ratio that the program rounds onto a
  threshold can fall beside the threshold here, and a duration beyond the range of
  \<^verbatim>\<open>timedelta\<close>, where the constructor raises \<^verbatim>\<open>OverflowError\<close>, is a duration
  like any other here.
\<close>

datatype pyfloat = Fin rat | PosInf

text \<open>\<^verbatim>\<open>x > c\<close> for a float \<open>x\<close> and a finite literal \<open>c\<close>.\<close>

fun float_gt :: "pyfloat \<Rightarrow> rat \<Rightarrow> bool" where
  "float_gt (Fin x) c = (c < x)"
| "float_gt PosInf c = True"

text \<open>Rounding to the nearest integer, ties to the even neighbour: the rule of Python's
  \<^verbatim>\<open>round\<close> and of the \<^verbatim>\<open>timedelta\<close> constructor.\<close>

definition round_half_even :: "rat \<Rightarrow> int" where
  "round_half_even x =
     (let f = \<lfloor>x\<rfloor>; d = x - of_int f
      in if d < 1 / 2 then f
         else if 1 / 2 < d then f + 1
         else if even f then f else f + 1)"

text \<open>\<^verbatim>\<open>round(x, 2)\<close>; an infinity rounds to itself.\<close>

fun py_round2 :: "pyfloat \<Rightarrow> pyfloat" where
  "py_round2 (Fin x) = Fin (of_int (round_half_even (x * 100)) / 100)"
| "py_round2 PosInf = PosInf"

type_synonym timedelta = int

text \<open>\<^verbatim>\<open>timedelta(hours=h)\<close>: the duration in whole microseconds.\<close>

definition timedelta_hours :: "rat \<Rightarrow> timedelta" where
  "timedelta_hours h = round_half_even (h * 3600000000)"

text \<open>\<^verbatim>\<open>d.total_seconds()\<close>.\<close>

definition total_seconds :: "timedelta \<Rightarrow> rat" where
  "total_seconds d = of_int d / 1000000"

text \<open>Truth value of \<^verbatim>\<open>sla_duration\<close> in a condition: \<^verbatim>\<open>None\<close> is false, and so
  is the zero duration \<^verbatim>\<open>timedelta(0)\<close>; every other duration is true.\<close>

fun truthy_duration :: "timedelta option \<Rightarrow> bool" where
  "truthy_duration None = False"
| "truthy_duration (Some d) = (d \<noteq> 0)"

text \<open>
  A raw \<^verbatim>\<open>Open_Time__\<close> cell, by what \<^verbatim>\<open>pd.to_datetime\<close> does with it: \<^verbatim>\<open>None\<close>
  comes back as \<^verbatim>\<open>None\<close> (pandas before version 3; from version 3 on it comes back
  as \<^verbatim>\<open>NaT\<close>, like the next cell), a missing value held as NaN or \<^verbatim>\<open>NaT\<close> comes
  back as \<^verbatim>\<open>NaT\<close>, a value that is no date makes it raise, and a date is parsed to
  its timestamp.
\<close>

datatype raw_time = NoTime | NaNTime | BadTime | GoodTime int

datatype timestamp = NaT | Stamp int

datatype py_error = IndexError | DateParseError

fun to_datetime :: "raw_time \<Rightarrow> py_error + timestamp option" where
  "to_datetime NoTime = Inr None"
| "to_datetime NaNTime = Inr (Some NaT)"
| "to_datetime BadTime = Inl DateParseError"
| "to_datetime (GoodTime t) = Inr (Some (Stamp t))"

text \<open>\<^verbatim>\<open>pd.notna\<close> on a raw cell.\<close>

fun notna_time :: "raw_time \<Rightarrow> bool" where
  "notna_time NoTime = False"
| "notna_time NaNTime = False"
| "notna_time BadTime = True"
| "notna_time (GoodTime t) = True"

section \<open>Decimal text of integers and SLA keys\<close>

text \<open>The f-string \<^verbatim>\<open>f"{impact}_{urgency}"\<close> writes both integers in decimal.\<close>

definition digit_char :: "nat \<Rightarrow> char" where
  "digit_char d = ''0123456789'' ! d"

function str_nat :: "nat \<Rightarrow> string" where
  "str_nat n = (if n < 10 then [digit_char n] else str_nat (n div 10) @ [digit_char (n mod 10)])"
  by pat_completeness auto
termination
  by (relation "measure (\<lambda>n. n)") auto

declare str_nat.simps [simp del]

definition str_int :: "int \<Rightarrow> string" where
  "str_int i = (if i < 0 then CHR ''-'' # str_nat (nat (- i)) else str_nat (nat i))"

definition pair_key :: "int \<Rightarrow> int \<Rightarrow> string" where
  "pair_key a b = str_int a @ ''_'' @ str_int b"

text \<open>A key of the caller's \<^verbatim>\<open>sla_definitions\<close> dictionary: a tuple
  \<^verbatim>\<open>(impact, urgency)\<close> or a string.\<close>

datatype sla_key = TupleKey int int | StrKey string

fun str_key :: "sla_key \<Rightarrow> string" where
  "str_key (TupleKey a b) = pair_key a b"
| "str_key (StrKey s) = s"

text \<open>Lines 77-83: the dictionary is rebuilt under string keys, entry by entry, a later
  entry replacing an earlier one with the same string key.\<close>

definition str_sla_definitions :: "(sla_key \<times> timedelta) list \<Rightarrow> (string \<rightharpoonup> timedelta)" where
  "str_sla_definitions items = foldl (\<lambda>m (k, v). m(str_key k \<mapsto> v)) Map.empty items"

section \<open>Incident rows and the records of the reports\<close>

record incident =
  Incident_ID :: string
  Impact_enc :: int
  Urgency_enc :: int
  Priority_enc :: int
  Handle_Time_hrs :: "rat option"
  Open_Time :: raw_time

datatype severity = Critical | High | Medium | Low

record breach_detail =
  d_Incident_ID :: string
  d_Priority_enc :: int
  d_Impact_enc :: int
  d_Urgency_enc :: int
  d_Handle_Time_hrs :: rat
  SLA_Duration_hrs :: rat
  d_Breach_Time :: "timestamp option"
  Severity :: severity
  Breach_Ratio :: pyfloat

record indicator =
  b_Incident_ID :: string
  breach :: bool
  b_Breach_Time :: "timestamp option"

record sla_loop =
  breaches :: "indicator list"
  breached_details :: "breach_detail list"
  total_sla_breaches :: nat

record sla_report = sla_loop +
  total_incidents_analyzed :: nat
  sla_breach_percentage :: rat

record breach_summary =
  total_incidents :: nat
  total_breaches :: nat
  breach_percentage :: rat

section \<open>check_sla_breach\<close>

text \<open>Line 106: the ratio of handle time to SLA hours, infinite when the SLA hours are
  not positive.\<close>

definition breach_ratio_of :: "rat \<Rightarrow> rat \<Rightarrow> pyfloat" where
  "breach_ratio_of handle_time sla_hours =
     (if 0 < sla_hours then Fin (handle_time / sla_hours) else PosInf)"

text \<open>Lines 108-115: the tier of a breach ratio.\<close>

definition breach_severity :: "pyfloat \<Rightarrow> severity" where
  "breach_severity breach_ratio =
     (if float_gt breach_ratio 2 then Critical
      else if float_gt breach_ratio (3 / 2) then High
      else if float_gt breach_ratio (6 / 5) then Medium
      else Low)"

text \<open>Lines 91-94: the open time parsed, \<^verbatim>\<open>None\<close> when parsing raises.\<close>

definition parse_open_time :: "raw_time \<Rightarrow> timestamp option" where
  "parse_open_time raw = (case to_datetime raw of Inl e \<Rightarrow> None | Inr t \<Rightarrow> t)"

text \<open>Line 97: the key of a row in the rebuilt dictionary.\<close>

definition row_key :: "incident \<Rightarrow> string" where
  "row_key row = pair_key (Impact_enc row) (Urgency_enc row)"

text \<open>Lines 105-127: the breach record of a breached row, from its handle time, its
  SLA duration and its parsed open time.\<close>

definition breach_record :: "incident \<Rightarrow> rat \<Rightarrow> timedelta \<Rightarrow> timestamp \<Rightarrow> breach_detail" where
  "breach_record row handle_time sla_duration open_time =
     (let sla_hours = total_seconds sla_duration / 3600;
          breach_ratio = breach_ratio_of handle_time sla_hours;
          severity = breach_severity breach_ratio
      in \<lparr>d_Incident_ID = Incident_ID row,
          d_Priority_enc = Priority_enc row,
          d_Impact_enc = Impact_enc row,
          d_Urgency_enc = Urgency_enc row,
          d_Handle_Time_hrs = handle_time,
          SLA_Duration_hrs = total_seconds sla_duration / 3600,
          d_Breach_Time = Some open_time,
          Severity = severity,
          Breach_Ratio = py_round2 breach_ratio\<rparr>)"

text \<open>Lines 86-133: the body of the loop over the rows, on the three accumulators. The
  condition of line 100 holds when the handle time is a number, the parsed open time is
  true as a condition and so is the looked-up duration. \<^verbatim>\<open>None\<close> is false there; a
  timestamp is true, and so is \<^verbatim>\<open>NaT\<close>, whose \<^verbatim>\<open>isoformat()\<close> is the text
  \<^verbatim>\<open>"NaT"\<close>.\<close>

definition sla_row :: "(string \<rightharpoonup> timedelta) \<Rightarrow> sla_loop \<Rightarrow> incident \<Rightarrow> sla_loop" where
  "sla_row defs st row =
     (let open_time = parse_open_time (Open_Time row);
          sla_duration = defs (row_key row)
      in case (Handle_Time_hrs row, open_time) of
           (Some handle_time, Some t) \<Rightarrow>
             if truthy_duration sla_duration then
               (let is_breach = (the sla_duration < timedelta_hours handle_time);
                    st1 =
                      (if is_breach
                       then st\<lparr>total_sla_breaches := total_sla_breaches st + 1,
                                breached_details := breached_details st @
                                  [breach_record row handle_time (the sla_duration) t]\<rparr>
                       else st)
                in st1\<lparr>breaches := breaches st1 @
                         [\<lparr>b_Incident_ID = Incident_ID row,
                           breach = is_breach,
                           b_Breach_Time = Some t\<rparr>]\<rparr>)
             else st
         | _ \<Rightarrow> st)"

definition check_sla_breach :: "incident list \<Rightarrow> (sla_key \<times> timedelta) list \<Rightarrow> sla_report" where
  "check_sla_breach data sla_definitions =
     (let total_incidents = length data;
          st = foldl (sla_row (str_sla_definitions sla_definitions))
                 \<lparr>breaches = [], breached_details = [], total_sla_breaches = 0\<rparr> data;
          pct = (if 0 < total_incidents
                 then of_nat (total_sla_breaches st) / of_nat total_incidents * 100
                 else 0)
      in \<lparr>breaches = breaches st,
          breached_details = breached_details st,
          total_sla_breaches = total_sla_breaches st,
          total_incidents_analyzed = total_incidents,
          sla_breach_percentage = pct\<rparr>)"

section \<open>sla_breach_summary\<close>


section \<open>Rows that are evaluated, rows that are counted\<close>

text \<open>The condition of line 100 as a predicate on a row, and the comparison of line
  101 for a row that passes it.\<close>

definition evaluated :: "(string \<rightharpoonup> timedelta) \<Rightarrow> incident \<Rightarrow> bool" where
  "evaluated defs row =
     (Handle_Time_hrs row \<noteq> None \<and> parse_open_time (Open_Time row) \<noteq> None \<and>
      truthy_duration (defs (row_key row)))"

definition counted_breach :: "(string \<rightharpoonup> timedelta) \<Rightarrow> incident \<Rightarrow> bool" where
  "counted_breach defs row =
     (evaluated defs row \<and>
      the (defs (row_key row)) < timedelta_hours (the (Handle_Time_hrs row)))"

text \<open>The specification's words. An incident is exempt when its (impact, urgency) pair
  has no entry in the table, or its handle time or open timestamp is missing or cannot
  be parsed; its handle time exceeds the SLA when the hours it took are more than the
  hours the table allows.\<close>

definition spec_exempt :: "(string \<rightharpoonup> timedelta) \<Rightarrow> incident \<Rightarrow> bool" where
  "spec_exempt defs row =
     (defs (row_key row) = None \<or> Handle_Time_hrs row = None \<or>
      Open_Time row = NoTime \<or> Open_Time row = NaNTime \<or> Open_Time row = BadTime)"

definition spec_exceeds :: "(string \<rightharpoonup> timedelta) \<Rightarrow> incident \<Rightarrow> bool" where
  "spec_exceeds defs row =
     (case (Handle_Time_hrs row, defs (row_key row)) of
        (Some h, Some d) \<Rightarrow> of_int d / 3600000000 < h
      | _ \<Rightarrow> False)"

text \<open>The pair (impact, urgency) has an entry in the caller's table: under the tuple
  itself, or under its text \<^verbatim>\<open>"<impact>_<urgency>"\<close>.\<close>

definition pair_in_table :: "(sla_key \<times> timedelta) list \<Rightarrow> int \<Rightarrow> int \<Rightarrow> bool" where
  "pair_in_table tbl impact urgency =
     (TupleKey impact urgency \<in> fst ` set tbl \<or>
      StrKey (pair_key impact urgency) \<in> fst ` set tbl)"



section \<open>detect_priority_inconsistencies\<close>

record inconsistency =
  i_Incident_ID :: string
  Impact :: int
  Urgency :: int
  Priority :: int
  Description :: string
  Detected_At :: "timestamp option"
  i_Severity :: severity

text \<open>Line 154, the argument of the debugging print:
  \<^verbatim>\<open>df.iloc[1].to_dict() if not df.empty else "Empty DataFrame"\<close>. Position 1 is the
  second row; \<^verbatim>\<open>iloc\<close> raises \<^verbatim>\<open>IndexError\<close> when the frame has no such row.\<close>

definition debug_first_row :: "incident list \<Rightarrow> py_error + incident option" where
  "debug_first_row df =
     (if df = [] then Inr None
      else if 1 < length df then Inr (Some (df ! 1))
      else Inl IndexError)"

text \<open>Lines 158-163: the detection timestamp, \<^verbatim>\<open>None\<close> for a missing cell and when
  parsing raises.\<close>

definition detected_at_of :: "raw_time \<Rightarrow> timestamp option" where
  "detected_at_of raw =
     (if notna_time raw
      then (case to_datetime raw of Inl e \<Rightarrow> None | Inr t \<Rightarrow> t)
      else None)"

text \<open>Lines 158-163 and 165-179: the record of a flagged row, with its detection
  timestamp and the tier of the secondary rule.\<close>

definition inconsistency_record :: "incident \<Rightarrow> inconsistency" where
  "inconsistency_record row =
     (let impact = Impact_enc row;
          urgency = Urgency_enc row;
          priority = Priority_enc row;
          detected_at = detected_at_of (Open_Time row);
          severity =
            (if impact = 3 \<and> urgency = 3 then High
             else if (impact = 3 \<and> urgency = 2) \<or> (impact = 2 \<and> urgency = 3) then Medium
             else Low)
      in \<lparr>i_Incident_ID = Incident_ID row,
          Impact = impact,
          Urgency = urgency,
          Priority = priority,
          Description = ''Potential misalignment between Impact, Urgency, and Priority.'',
          Detected_At = detected_at,
          i_Severity = severity\<rparr>)"

text \<open>Lines 157-179: the body of the loop over the rows, on the list built so far.\<close>

definition inconsistency_row :: "inconsistency list \<Rightarrow> incident \<Rightarrow> inconsistency list" where
  "inconsistency_row inconsistencies row =
     (let impact = Impact_enc row;
          urgency = Urgency_enc row;
          priority = Priority_enc row
      in if (impact = 3 \<and> urgency = 1 \<and> priority \<noteq> 1) \<or>
            (impact = 1 \<and> urgency = 3 \<and> priority \<noteq> 3)
         then inconsistencies @ [inconsistency_record row]
         else inconsistencies)"

definition detect_priority_inconsistencies :: "incident list \<Rightarrow> py_error + inconsistency list" where
  "detect_priority_inconsistencies data =
     (case debug_first_row data of
        Inl e \<Rightarrow> Inl e
      | Inr shown \<Rightarrow> Inr (foldl inconsistency_row [] data))"

text \<open>The specification's words: the two rule patterns, as a predicate on the
  (impact, urgency, priority) of a row.\<close>

definition spec_rule :: "int \<Rightarrow> int \<Rightarrow> int \<Rightarrow> bool" where
  "spec_rule impact urgency priority =
     ((impact, urgency) = (3, 1) \<and> priority \<noteq> 1 \<or>
      (impact, urgency) = (1, 3) \<and> priority \<noteq> 3)"

definition flagged :: "incident \<Rightarrow> bool" where
  "flagged row = spec_rule (Impact_enc row) (Urgency_enc row) (Priority_enc row)"

section \<open>compute_weekly_trend\<close>

record weekly_bucket =
  week :: int
  incident_count :: nat
  rolling_avg :: "rat option"
  spike :: bool

text \<open>\<^verbatim>\<open>.dt.to_period("W").dt.start_time\<close>: the Monday 00:00 that starts the week of a
  timestamp. The epoch is a Thursday, three days after a Monday.\<close>

definition week_start :: "int \<Rightarrow> int" where
  "week_start t = t - (t + 3 * 86400000000000) mod (7 * 86400000000000)"

text \<open>\<^verbatim>\<open>pd.to_datetime\<close> on the whole column: it raises at the first cell that is no
  date, and a missing cell, \<^verbatim>\<open>None\<close> or NaN, is \<^verbatim>\<open>NaT\<close> in the column it gives,
  here \<open>None\<close> among the timestamps.\<close>

fun column_value :: "timestamp option \<Rightarrow> int option" where
  "column_value None = None"
| "column_value (Some NaT) = None"
| "column_value (Some (Stamp t)) = Some t"

fun to_datetime_column :: "raw_time list \<Rightarrow> py_error + int option list" where
  "to_datetime_column [] = Inr []"
| "to_datetime_column (c # cs) =
     (case to_datetime c of
        Inl e \<Rightarrow> Inl e
      | Inr t \<Rightarrow>
          (case to_datetime_column cs of
             Inl e \<Rightarrow> Inl e
           | Inr ts \<Rightarrow> Inr (column_value t # ts)))"

text \<open>\<^verbatim>\<open>df.groupby("week").size()\<close>: one entry per week that occurs, in ascending
  order of the week, with the number of rows of that week; rows with a missing week
  are left out.\<close>

definition groupby_size :: "int option list \<Rightarrow> (int \<times> nat) list" where
  "groupby_size col =
     (let ks = List.map_filter (\<lambda>k. k) col
      in map (\<lambda>w. (w, count_list ks w)) (sort (remdups ks)))"

text \<open>\<^verbatim>\<open>.rolling(window, min_periods).mean()\<close> as the window aggregator of pandas
  computes it: one pass that keeps the values of the current window and their running
  sum, drops the value that slides out, adds the new one, and gives the mean when the
  window holds at least \<open>minp\<close> values (NaN, here \<open>None\<close>, otherwise).\<close>

fun roll_mean :: "nat \<Rightarrow> nat \<Rightarrow> rat list \<Rightarrow> rat \<Rightarrow> rat list \<Rightarrow> rat option list" where
  "roll_mean window minp win sum_x [] = []"
| "roll_mean window minp win sum_x (x # xs) =
     (let win1 = (if window \<le> length win then tl win else win);
          sum1 = (if window \<le> length win then sum_x - hd win else sum_x);
          win2 = win1 @ [x];
          sum2 = sum1 + x;
          nobs = length win2
      in (if minp \<le> nobs \<and> 0 < nobs then Some (sum2 / of_nat nobs) else None)
         # roll_mean window minp win2 sum2 xs)"

text \<open>Line 41: \<^verbatim>\<open>incident_count > rolling_avg * 1.5\<close>; a comparison with NaN is false.\<close>

fun spike_flag :: "nat \<Rightarrow> rat option \<Rightarrow> bool" where
  "spike_flag n None = False"
| "spike_flag n (Some avg) = (avg * (3 / 2) < of_nat n)"

text \<open>Lines 40-42: the two derived columns, from the weekly counts.\<close>

definition trend_records :: "(int \<times> nat) list \<Rightarrow> weekly_bucket list" where
  "trend_records weekly =
     map (\<lambda>((w, n), avg).
            \<lparr>week = w, incident_count = n, rolling_avg = avg, spike = spike_flag n avg\<rparr>)
       (zip weekly (roll_mean 3 1 [] 0 (map (\<lambda>(w, n). of_nat n) weekly)))"

definition compute_weekly_trend :: "incident list \<Rightarrow> py_error + weekly_bucket list" where
  "compute_weekly_trend data =
     (case to_datetime_column (map Open_Time data) of
        Inl e \<Rightarrow> Inl e
      | Inr ts \<Rightarrow> Inr (trend_records (groupby_size (map (map_option week_start) ts))))"

text \<open>The specification's words: the mean of the counts of bucket \<open>i\<close> and of up to
  two buckets before it.\<close>

definition window_counts :: "nat list \<Rightarrow> nat \<Rightarrow> nat list" where
  "window_counts counts i = drop (i - 2) (take (i + 1) counts)"

definition spec_rolling_avg :: "nat list \<Rightarrow> nat \<Rightarrow> rat" where
  "spec_rolling_avg counts i =
     of_nat (sum_list (window_counts counts i)) / of_nat (length (window_counts counts i))"

section \<open>The default SLA table and the scenarios of the specification\<close>

text \<open>The table \<^verbatim>\<open>self.sla_definitions\<close> that \<^verbatim>\<open>SLAPriorityAgent\<close> builds when it
  is given none (\<^verbatim>\<open>agents/sla_agent.py\<close>): hours for impact and urgency from 1 to 3,
  each turned into a duration by \<^verbatim>\<open>timedelta(hours=v)\<close>, under the tuple keys; the
  pairs mapped to \<^verbatim>\<open>None\<close> are left out.\<close>

definition default_sla :: "(sla_key \<times> timedelta) list" where
  "default_sla =
     [(TupleKey 1 1, timedelta_hours (1 / 4)),
      (TupleKey 1 2, timedelta_hours (1 / 2)),
      (TupleKey 1 3, timedelta_hours 1),
      (TupleKey 2 1, timedelta_hours (1 / 2)),
      (TupleKey 2 2, timedelta_hours 1),
      (TupleKey 2 3, timedelta_hours 2),
      (TupleKey 3 1, timedelta_hours 1),
      (TupleKey 3 2, timedelta_hours 2),
      (TupleKey 3 3, timedelta_hours 4)]"

text \<open>The three SLA scenarios of the specification: a breach, no breach, an exempt row.\<close>

definition scenario_breach :: incident where
  "scenario_breach =
     \<lparr>Incident_ID = ''IM0001'', Impact_enc = 3, Urgency_enc = 1, Priority_enc = 2,
      Handle_Time_hrs = Some 3, Open_Time = GoodTime 0\<rparr>"

definition scenario_no_breach :: incident where
  "scenario_no_breach =
     \<lparr>Incident_ID = ''IM0002'', Impact_enc = 1, Urgency_enc = 1, Priority_enc = 1,
      Handle_Time_hrs = Some (1 / 10), Open_Time = GoodTime 86400000000000\<rparr>"

definition scenario_exempt :: incident where
  "scenario_exempt =
     \<lparr>Incident_ID = ''IM0003'', Impact_enc = 0, Urgency_enc = 0, Priority_enc = 0,
      Handle_Time_hrs = Some 5, Open_Time = GoodTime 172800000000000\<rparr>"


definition zero_sla_row :: incident where
  "zero_sla_row =
     \<lparr>Incident_ID = ''IM0007'', Impact_enc = 1, Urgency_enc = 1, Priority_enc = 1,
      Handle_Time_hrs = Some 1, Open_Time = GoodTime 0\<rparr>"

definition no_open_time_row :: incident where
  "no_open_time_row =
     \<lparr>Incident_ID = ''IM0011'', Impact_enc = 3, Urgency_enc = 1, Priority_enc = 2,
      Handle_Time_hrs = Some 3, Open_Time = NaNTime\<rparr>"

text \<open>The inconsistency scenario of the specification (impact 3, urgency 1, priority
  2), a row the first pattern leaves alone because its priority is 1, and a row outside
  both patterns with a cell that is no date.\<close>

definition scenario_inconsistent :: incident where
  "scenario_inconsistent =
     \<lparr>Incident_ID = ''IM0008'', Impact_enc = 3, Urgency_enc = 1, Priority_enc = 2,
      Handle_Time_hrs = Some 3, Open_Time = NoTime\<rparr>"

definition scenario_consistent :: incident where
  "scenario_consistent =
     \<lparr>Incident_ID = ''IM0009'', Impact_enc = 3, Urgency_enc = 1, Priority_enc = 1,
      Handle_Time_hrs = Some 3, Open_Time = GoodTime 0\<rparr>"

definition scenario_other :: incident where
  "scenario_other =
     \<lparr>Incident_ID = ''IM0010'', Impact_enc = 3, Urgency_enc = 3, Priority_enc = 1,
      Handle_Time_hrs = None, Open_Time = BadTime\<rparr>"

text \<open>The spike scenario of the specification: 10, 12, 11 and 40 incidents in four
  weeks on end, row \<open>k\<close> of week \<open>wk\<close> opened \<open>k\<close> hours into the Thursday of that
  week; and a snapshot of one week.\<close>

definition opened_in_week :: "nat \<Rightarrow> nat \<Rightarrow> incident" where
  "opened_in_week wk k =
     \<lparr>Incident_ID = ''IM'' @ str_nat (100 * wk + k), Impact_enc = 2, Urgency_enc = 2,
      Priority_enc = 2, Handle_Time_hrs = Some (1 / 2),
      Open_Time = GoodTime (int wk * (7 * 86400000000000) + int k * 3600000000000)\<rparr>"

definition spike_snapshot :: "incident list" where
  "spike_snapshot =
     map (opened_in_week 0) [0..<10] @ map (opened_in_week 1) [0..<12] @
     map (opened_in_week 2) [0..<11] @ map (opened_in_week 3) [0..<40]"

definition one_week_snapshot :: "incident list" where
  "one_week_snapshot = map (opened_in_week 5) [0..<7]"

section \<open>Rounding\<close>

lemma round_half_even_gt:
  assumes "n < round_half_even x"
  shows "of_int n < x"
proof -
  have "round_half_even x \<le> \<lfloor>x\<rfloor> + 1"
    by (simp add: round_half_even_def Let_def)
  with assms have below: "n \<le> \<lfloor>x\<rfloor>" by linarith
  show ?thesis
  proof (cases "n = \<lfloor>x\<rfloor>")
    case True
    with assms have "round_half_even x \<noteq> \<lfloor>x\<rfloor>" by simp
    then have "1 / 2 \<le> x - of_int \<lfloor>x\<rfloor>"
      by (auto simp: round_half_even_def Let_def split: if_splits)
    with True show ?thesis by linarith
  next
    case False
    with below have "n < \<lfloor>x\<rfloor>" by simp
    then have "of_int n < (of_int \<lfloor>x\<rfloor> :: rat)" by simp
    also have "\<dots> \<le> x" by simp
    finally show ?thesis .
  qed
qed


section \<open>The loop of check_sla_breach\<close>

text \<open>One row changes each accumulator in one way only.\<close>

lemma sla_row_not_evaluated: "\<not> evaluated defs r \<Longrightarrow> sla_row defs st r = st"
  by (auto simp: evaluated_def sla_row_def Let_def split: option.splits)

lemma sla_row_total:
  "total_sla_breaches (sla_row defs st r) =
     total_sla_breaches st + (if counted_breach defs r then 1 else 0)"
  by (auto simp: evaluated_def counted_breach_def sla_row_def Let_def split: option.splits)



text \<open>The whole loop, by induction on the rows with the accumulators generalised.\<close>

lemma foldl_total:
  "total_sla_breaches (foldl (sla_row defs) st data) =
     total_sla_breaches st + length (filter (counted_breach defs) data)"
  by (induction data arbitrary: st) (simp_all add: sla_row_total)



text \<open>The keys of the rebuilt dictionary are the string forms of the caller's keys.\<close>

lemma dom_str_sla_fold:
  "dom (foldl (\<lambda>m (k, v). m(str_key k \<mapsto> v)) m0 items) = dom m0 \<union> str_key ` fst ` set items"
  by (induction items arbitrary: m0) (auto split: prod.splits)

lemma dom_str_sla_definitions: "dom (str_sla_definitions items) = str_key ` fst ` set items"
  by (simp add: str_sla_definitions_def dom_str_sla_fold)

text \<open>A counted row has a handle time, a non-zero entry in the dictionary and an open
  time that is neither \<^verbatim>\<open>None\<close> nor unparseable, and it took more hours than its SLA
  allows: the handle time is rounded to whole microseconds before the comparison, and a
  rounded value above an integer comes from a value above it. The open time of a counted
  row can be the missing timestamp \<^verbatim>\<open>NaT\<close>.\<close>

lemma counted_exceeds:
  assumes "counted_breach defs r"
  shows "spec_exceeds defs r" and "Handle_Time_hrs r \<noteq> None"
    and "defs (row_key r) \<noteq> None"
    and "Open_Time r \<noteq> NoTime" and "Open_Time r \<noteq> BadTime"
proof -
  from assms obtain h d where h: "Handle_Time_hrs r = Some h"
    and d: "defs (row_key r) = Some d"
    and t: "parse_open_time (Open_Time r) \<noteq> None"
    and lt: "d < timedelta_hours h"
    by (cases "defs (row_key r)") (auto simp: counted_breach_def evaluated_def)
  from h show "Handle_Time_hrs r \<noteq> None" by simp
  from d show "defs (row_key r) \<noteq> None" by simp
  from t show "Open_Time r \<noteq> NoTime" and "Open_Time r \<noteq> BadTime"
    by (auto simp: parse_open_time_def)
  from lt have "of_int d < h * 3600000000"
    unfolding timedelta_hours_def by (rule round_half_even_gt)
  then have "of_int d / 3600000000 < h" by (simp add: divide_less_eq)
  with h d show "spec_exceeds defs r" by (simp add: spec_exceeds_def)
qed

section \<open>The text of a key determines its pair\<close>

text \<open>The decimal text of an integer has digits only, after a minus sign when it is
  negative, and determines the integer; so the text of a pair, with its underscore
  between the two, determines the pair.\<close>

lemma digit_char_cases:
  fixes d :: nat
  assumes "d < 10"
  obtains "d = 0" | "d = 1" | "d = 2" | "d = 3" | "d = 4" | "d = 5" | "d = 6" | "d = 7"
    | "d = 8" | "d = 9"
  using assms by atomize_elim arith

lemma digit_char_inj:
  assumes "d < 10" and "e < 10" and "digit_char d = digit_char e"
  shows "d = e"
  using assms(1)
proof (cases rule: digit_char_cases)
qed (use assms(2,3) in \<open>cases rule: digit_char_cases; simp add: digit_char_def\<close>)+

lemma digit_char_plain:
  assumes "d < 10"
  shows "digit_char d \<noteq> CHR ''-''" and "digit_char d \<noteq> CHR ''_''"
  using assms by (cases rule: digit_char_cases; simp add: digit_char_def)+

lemma str_nat_unfold:
  "n < 10 \<Longrightarrow> str_nat n = [digit_char n]"
  "\<not> n < 10 \<Longrightarrow> str_nat n = str_nat (n div 10) @ [digit_char (n mod 10)]"
  by (subst str_nat.simps, simp)+

lemma str_nat_nonempty: "str_nat n \<noteq> []"
  by (cases "n < 10") (simp_all add: str_nat_unfold)

lemma str_nat_digits: "c \<in> set (str_nat n) \<Longrightarrow> \<exists>d<10. c = digit_char d"
proof (induction n rule: str_nat.induct)
  case (1 n)
  show ?case
  proof (cases "n < 10")
    case True
    with "1.prems" show ?thesis by (auto simp only: str_nat_unfold list.set)
  next
    case False
    from "1.prems" have "c \<in> set (str_nat (n div 10)) \<or> c = digit_char (n mod 10)"
      by (simp only: str_nat_unfold(2) [OF False]) auto
    then show ?thesis
    proof
      assume "c \<in> set (str_nat (n div 10))"
      with False "1.IH" show ?thesis by blast
    next
      assume "c = digit_char (n mod 10)"
      moreover have "n mod 10 < 10" by simp
      ultimately show ?thesis by blast
    qed
  qed
qed

lemma str_nat_inj: "str_nat n = str_nat m \<Longrightarrow> n = m"
proof (induction n arbitrary: m rule: str_nat.induct)
  case (1 n)
  show ?case
  proof (cases "n < 10")
    case True
    then have n: "str_nat n = [digit_char n]" by (rule str_nat_unfold)
    show ?thesis
    proof (cases "m < 10")
      case m: True
      then have "str_nat m = [digit_char m]" by (rule str_nat_unfold)
      with n "1.prems" have "digit_char n = digit_char m" by simp
      with True m show ?thesis by (rule digit_char_inj)
    next
      case False
      then have "str_nat m = str_nat (m div 10) @ [digit_char (m mod 10)]"
        by (rule str_nat_unfold)
      with n "1.prems" have "str_nat (m div 10) = []" by simp
      with str_nat_nonempty show ?thesis by blast
    qed
  next
    case False
    then have n: "str_nat n = str_nat (n div 10) @ [digit_char (n mod 10)]"
      by (rule str_nat_unfold)
    show ?thesis
    proof (cases "m < 10")
      case True
      then have "str_nat m = [digit_char m]" by (rule str_nat_unfold)
      with n "1.prems" have "str_nat (n div 10) = []" by simp
      with str_nat_nonempty show ?thesis by blast
    next
      case m: False
      then have "str_nat m = str_nat (m div 10) @ [digit_char (m mod 10)]"
        by (rule str_nat_unfold)
      with n "1.prems" have front: "str_nat (n div 10) = str_nat (m div 10)"
        and last: "digit_char (n mod 10) = digit_char (m mod 10)" by simp_all
      from False front have "n div 10 = m div 10" by (rule "1.IH")
      moreover from last have "n mod 10 = m mod 10"
        by (intro digit_char_inj) simp_all
      ultimately show ?thesis by (metis div_mult_mod_eq)
    qed
  qed
qed

lemma str_int_chars: "CHR ''_'' \<notin> set (str_int i)"
proof
  assume "CHR ''_'' \<in> set (str_int i)"
  then have "CHR ''_'' \<in> set (str_nat (nat (- i))) \<or> CHR ''_'' \<in> set (str_nat (nat i))"
    by (auto simp: str_int_def split: if_splits)
  then obtain d where "d < 10" and "CHR ''_'' = digit_char d"
    using str_nat_digits by blast
  with digit_char_plain(2) [of d] show False by simp
qed

lemma str_nat_no_sign: "hd (str_nat n) \<noteq> CHR ''-''"
proof -
  from str_nat_nonempty have "hd (str_nat n) \<in> set (str_nat n)" by simp
  then obtain d where "d < 10" and "hd (str_nat n) = digit_char d"
    using str_nat_digits by blast
  with digit_char_plain(1) [of d] show ?thesis by simp
qed

lemma str_int_inj: "str_int i = str_int j \<Longrightarrow> i = j"
proof -
  assume eq: "str_int i = str_int j"
  consider "i < 0" "j < 0" | "\<not> i < 0" "\<not> j < 0" | "i < 0" "\<not> j < 0" | "\<not> i < 0" "j < 0"
    by blast
  then show "i = j"
  proof cases
    case 1
    with eq have "str_nat (nat (- i)) = str_nat (nat (- j))" by (simp add: str_int_def)
    then have "nat (- i) = nat (- j)" by (rule str_nat_inj)
    with 1 show ?thesis by simp
  next
    case 2
    with eq have "str_nat (nat i) = str_nat (nat j)" by (simp add: str_int_def)
    then have "nat i = nat j" by (rule str_nat_inj)
    with 2 show ?thesis by simp
  next
    case 3
    with eq have "str_nat (nat j) = CHR ''-'' # str_nat (nat (- i))"
      by (simp add: str_int_def)
    then have "hd (str_nat (nat j)) = CHR ''-''" by simp
    with str_nat_no_sign show ?thesis by blast
  next
    case 4
    with eq have "str_nat (nat i) = CHR ''-'' # str_nat (nat (- j))"
      by (simp add: str_int_def)
    then have "hd (str_nat (nat i)) = CHR ''-''" by simp
    with str_nat_no_sign show ?thesis by blast
  qed
qed

lemma pair_key_inj:
  assumes "pair_key a b = pair_key c d"
  shows "a = c \<and> b = d"
proof -
  from assms have "str_int a @ CHR ''_'' # str_int b = str_int c @ CHR ''_'' # str_int d"
    by (simp add: pair_key_def)
  then have "str_int a = str_int c \<and> str_int b = str_int d"
    using append_Cons_eq_iff [OF str_int_chars str_int_chars] by blast
  then show ?thesis by (auto dest: str_int_inj)
qed

lemma absent_pair_no_entry:
  assumes "\<not> pair_in_table tbl i u"
  shows "str_sla_definitions tbl (pair_key i u) = None"
proof (rule ccontr)
  assume "str_sla_definitions tbl (pair_key i u) \<noteq> None"
  then have "pair_key i u \<in> dom (str_sla_definitions tbl)" by auto
  then have "pair_key i u \<in> str_key ` fst ` set tbl"
    by (simp only: dom_str_sla_definitions)
  then obtain k where k: "k \<in> fst ` set tbl" and eq: "pair_key i u = str_key k"
    by (rule imageE)
  show False
  proof (cases k)
    case (TupleKey a b)
    with eq have "pair_key i u = pair_key a b" by simp
    then have "i = a \<and> u = b" by (rule pair_key_inj)
    with TupleKey k assms show False by (simp add: pair_in_table_def)
  next
    case (StrKey s)
    with eq k assms show False by (simp add: pair_in_table_def)
  qed
qed

section \<open>The totals of check_sla_breach\<close>

text \<open>
  For every snapshot and every SLA table, \<open>total_incidents_analyzed\<close> is the number of
  rows passed in; \<open>total_sla_breaches\<close> is the number of rows the loop counts, and a
  counted row has a handle time, took more hours than its SLA duration allows and has an
  open time that is neither \<^verbatim>\<open>None\<close> nor unparseable, so a row whose (impact, urgency)
  pair has no entry in the table is never counted; \<open>sla_breach_percentage\<close> is breaches
  over rows times 100, and 0 for no rows; and the breaches never exceed the rows.
\<close>

lemma check_sla_breach_totals:
  fixes data :: "incident list" and tbl :: "(sla_key \<times> timedelta) list"
  defines "defs \<equiv> str_sla_definitions tbl"
  defines "out \<equiv> check_sla_breach data tbl"
  shows "total_incidents_analyzed out = length data \<and>
         total_sla_breaches out = length (filter (counted_breach defs) data) \<and>
         (\<forall>r. counted_breach defs r \<longrightarrow>
              spec_exceeds defs r \<and> Handle_Time_hrs r \<noteq> None \<and>
              Open_Time r \<noteq> NoTime \<and> Open_Time r \<noteq> BadTime) \<and>
         (\<forall>r. \<not> pair_in_table tbl (Impact_enc r) (Urgency_enc r) \<longrightarrow>
              \<not> counted_breach defs r) \<and>
         sla_breach_percentage out =
           (if total_incidents_analyzed out = 0 then 0
            else of_nat (total_sla_breaches out) / of_nat (total_incidents_analyzed out) * 100) \<and>
         total_sla_breaches out \<le> total_incidents_analyzed out"
proof -
  have n: "total_incidents_analyzed out = length data"
    by (simp add: out_def check_sla_breach_def Let_def)
  have b: "total_sla_breaches out = length (filter (counted_breach defs) data)"
    by (simp add: out_def defs_def check_sla_breach_def Let_def foldl_total)
  have p: "sla_breach_percentage out =
           (if total_incidents_analyzed out = 0 then 0
            else of_nat (total_sla_breaches out) / of_nat (total_incidents_analyzed out) * 100)"
    by (simp add: out_def check_sla_breach_def Let_def)
  have e: "\<not> counted_breach defs r"
    if "\<not> pair_in_table tbl (Impact_enc r) (Urgency_enc r)" for r
  proof -
    from that have "defs (row_key r) = None"
      unfolding defs_def row_key_def by (rule absent_pair_no_entry)
    then show ?thesis by (simp add: counted_breach_def evaluated_def)
  qed
  have c: "spec_exceeds defs r \<and> Handle_Time_hrs r \<noteq> None \<and>
           Open_Time r \<noteq> NoTime \<and> Open_Time r \<noteq> BadTime"
    if "counted_breach defs r" for r
    using counted_exceeds [OF that] by simp
  have le: "total_sla_breaches out \<le> total_incidents_analyzed out"
    unfolding n b by (rule length_filter_le)
  from n b p e c le show ?thesis by blast
qed

lemma check_sla_breach_totals_scenarios:
  "counted_breach (str_sla_definitions default_sla) scenario_breach \<and>
   spec_exceeds (str_sla_definitions default_sla) scenario_breach \<and>
   \<not> pair_in_table default_sla (Impact_enc scenario_exempt) (Urgency_enc scenario_exempt) \<and>
   \<not> counted_breach (str_sla_definitions default_sla) scenario_exempt \<and>
   total_incidents_analyzed
     (check_sla_breach [scenario_breach, scenario_no_breach, scenario_exempt] default_sla) = 3 \<and>
   total_sla_breaches
     (check_sla_breach [scenario_breach, scenario_no_breach, scenario_exempt] default_sla) = 1 \<and>
   sla_breach_percentage
     (check_sla_breach [scenario_breach, scenario_no_breach, scenario_exempt] default_sla) = 100 / 3"
proof -
  note totals = check_sla_breach_totals
    [of "[scenario_breach, scenario_no_breach, scenario_exempt]" default_sla]
  have counted: "counted_breach (str_sla_definitions default_sla) scenario_breach"
    by code_simp
  have absent: "\<not> pair_in_table default_sla (Impact_enc scenario_exempt)
                     (Urgency_enc scenario_exempt)"
    by code_simp
  have one: "length (filter (counted_breach (str_sla_definitions default_sla))
               [scenario_breach, scenario_no_breach, scenario_exempt]) = 1"
    by code_simp
  from totals counted absent one show ?thesis by simp
qed

text \<open>
  C2. A row whose open time is missing is exempt, and \<open>total_sla_breaches\<close> is to count
  non-exempt rows only. When the cell holds NaN, \<^verbatim>\<open>pd.to_datetime\<close> gives \<^verbatim>\<open>NaT\<close>,
  which is true in the condition of line 100: the row is evaluated, and with a handle
  time of three hours against an SLA of one hour it is counted as a breach, with the
  breach time \<^verbatim>\<open>NaT\<close>. The total of one row, the breach total of one and the
  percentage of 100 are those of a report that counts it.
\<close>

theorem missing_open_time_is_counted:
  "spec_exempt (str_sla_definitions default_sla) no_open_time_row \<and>
   counted_breach (str_sla_definitions default_sla) no_open_time_row \<and>
   total_incidents_analyzed (check_sla_breach [no_open_time_row] default_sla) = 1 \<and>
   total_sla_breaches (check_sla_breach [no_open_time_row] default_sla) = 1 \<and>
   sla_breach_percentage (check_sla_breach [no_open_time_row] default_sla) = 100 \<and>
   map d_Breach_Time (breached_details (check_sla_breach [no_open_time_row] default_sla)) =
     [Some NaT]"
  by code_simp

section \<open>The breach records of check_sla_breach\<close>









section \<open>A zero-hour SLA\<close>

text \<open>
  C5. The table maps the row's pair to the zero duration, and the row has a handle time of
  one hour and an open time. Line 100 tests the duration as a condition, and the zero
  duration is false there: the row is skipped like a row with no entry. No indicator, no
  breach record, no breach counted; the guard of line 106 for zero SLA hours is never
  reached with them.
\<close>

theorem zero_hour_sla_is_skipped:
  "str_sla_definitions [(TupleKey 1 1, timedelta_hours 0)] (row_key zero_sla_row) = Some 0 \<and>
   breaches (check_sla_breach [zero_sla_row] [(TupleKey 1 1, timedelta_hours 0)]) = [] \<and>
   breached_details (check_sla_breach [zero_sla_row] [(TupleKey 1 1, timedelta_hours 0)]) = [] \<and>
   total_sla_breaches (check_sla_breach [zero_sla_row] [(TupleKey 1 1, timedelta_hours 0)]) = 0"
  by code_simp

section \<open>The summary of the indicators\<close>




section \<open>The loop of detect_priority_inconsistencies\<close>

text \<open>A row adds its record when it matches a rule pattern and nothing otherwise; the
  function returns the records of the matching rows, in order, unless the debugging print
  of line 154 raises first, which it does on a frame of exactly one row.\<close>

lemma inconsistency_row_flagged:
  "inconsistency_row acc r = acc @ (if flagged r then [inconsistency_record r] else [])"
  by (auto simp: inconsistency_row_def flagged_def spec_rule_def Let_def)

lemma foldl_inconsistency_row:
  "foldl inconsistency_row acc data = acc @ map inconsistency_record (filter flagged data)"
  by (induction data arbitrary: acc) (simp_all add: inconsistency_row_flagged)

lemma debug_first_row_cases:
  "debug_first_row data = Inl e \<longleftrightarrow> length data = 1 \<and> e = IndexError"
  by (cases data) (auto simp: debug_first_row_def)

lemma detect_eq:
  "detect_priority_inconsistencies data =
     (if length data = 1 then Inl IndexError
      else Inr (map inconsistency_record (filter flagged data)))"
proof (cases "debug_first_row data")
  case (Inl e)
  then have "length data = 1" and "e = IndexError"
    by (simp_all add: debug_first_row_cases)
  with Inl show ?thesis
    by (simp add: detect_priority_inconsistencies_def)
next
  case (Inr shown)
  then have "length data \<noteq> 1"
    using debug_first_row_cases [of data IndexError] by auto
  with Inr show ?thesis
    by (simp add: detect_priority_inconsistencies_def foldl_inconsistency_row)
qed


text \<open>
  The loop flags a row exactly when it matches one of the two rule patterns, (impact 3,
  urgency 1, priority not 1) or (impact 1, urgency 3, priority not 3): it adds a record
  for such a row and leaves the list as it is for every other row, and whenever the
  function returns, on every snapshot that does not have exactly one row, its result
  holds the record of a row of the snapshot exactly when the row matches.
\<close>

lemma flags_exactly_the_rule_patterns:
  "(length data \<noteq> 1 \<longrightarrow>
      detect_priority_inconsistencies data = Inr (map inconsistency_record (filter flagged data))) \<and>
   (\<forall>recs. detect_priority_inconsistencies data = Inr recs \<longrightarrow>
      recs = map inconsistency_record (filter flagged data) \<and>
      (\<forall>r \<in> set data. inconsistency_record r \<in> set recs \<longleftrightarrow> flagged r)) \<and>
   (\<forall>acc r. inconsistency_row acc r = (if flagged r then acc @ [inconsistency_record r] else acc)) \<and>
   (\<forall>r. flagged r \<longleftrightarrow>
      Impact_enc r = 3 \<and> Urgency_enc r = 1 \<and> Priority_enc r \<noteq> 1 \<or>
      Impact_enc r = 1 \<and> Urgency_enc r = 3 \<and> Priority_enc r \<noteq> 3)"
proof -
  have member: "inconsistency_record r \<in> set (map inconsistency_record (filter flagged data))
      \<longleftrightarrow> flagged r" if "r \<in> set data" for r
  proof
    assume "inconsistency_record r \<in> set (map inconsistency_record (filter flagged data))"
    then obtain r' where r': "flagged r'" and eq: "inconsistency_record r = inconsistency_record r'"
      by auto
    from eq have "Impact_enc r = Impact_enc r'" "Urgency_enc r = Urgency_enc r'"
      "Priority_enc r = Priority_enc r'"
      by (simp_all add: inconsistency_record_def Let_def)
    with r' show "flagged r" by (simp add: flagged_def)
  next
    assume "flagged r"
    with that show "inconsistency_record r \<in> set (map inconsistency_record (filter flagged data))"
      by simp
  qed
  have rule: "flagged r \<longleftrightarrow>
      Impact_enc r = 3 \<and> Urgency_enc r = 1 \<and> Priority_enc r \<noteq> 1 \<or>
      Impact_enc r = 1 \<and> Urgency_enc r = 3 \<and> Priority_enc r \<noteq> 3" for r
    by (auto simp: flagged_def spec_rule_def)
  show ?thesis
    using member rule by (auto simp: detect_eq inconsistency_row_flagged split: if_splits)
qed

lemma flags_exactly_the_rule_patterns_scenarios:
  "detect_priority_inconsistencies [scenario_inconsistent, scenario_consistent, scenario_other] =
     Inr [inconsistency_record scenario_inconsistent] \<and>
   flagged scenario_inconsistent \<and> \<not> flagged scenario_consistent \<and> \<not> flagged scenario_other \<and>
   inconsistency_row [] scenario_other = []"
proof -
  let ?data = "[scenario_inconsistent, scenario_consistent, scenario_other]"
  note rule = flags_exactly_the_rule_patterns [of ?data]
  have len: "length ?data \<noteq> 1" by simp
  have f1: "flagged scenario_inconsistent" by code_simp
  have f2: "\<not> flagged scenario_consistent" by code_simp
  have f3: "\<not> flagged scenario_other" by code_simp
  from rule len have "detect_priority_inconsistencies ?data =
      Inr (map inconsistency_record (filter flagged ?data))" by blast
  with f1 f2 f3 have run: "detect_priority_inconsistencies ?data =
      Inr [inconsistency_record scenario_inconsistent]" by simp
  from rule f3 have "inconsistency_row [] scenario_other = []" by simp
  with run f1 f2 f3 show ?thesis by simp
qed

text \<open>
  C3. A row that matches a rule pattern is to be flagged, whatever snapshot it is in. The
  row with impact 3, urgency 1 and priority 2 matches the first pattern; alone in its
  snapshot it gets no flag, because the debugging print of line 154 raises
  \<^verbatim>\<open>IndexError\<close> before the loop runs. With a second row beside it, the same row is
  flagged.
\<close>

theorem matching_row_alone_is_not_flagged:
  "flagged scenario_inconsistent \<and>
   detect_priority_inconsistencies [scenario_inconsistent] = Inl IndexError \<and>
   detect_priority_inconsistencies [scenario_inconsistent, scenario_consistent] =
     Inr [inconsistency_record scenario_inconsistent]"
  by code_simp



text \<open>
  C9. On the empty snapshot the function returns the empty list, and a missing or
  unparseable open time gives a null detection timestamp; on a snapshot with exactly one
  row the debugging print of line 154 asks for \<^verbatim>\<open>df.iloc[1]\<close>, the second row, and
  the function raises \<^verbatim>\<open>IndexError\<close> before the loop starts, whether the row matches
  a pattern or not.
\<close>

theorem single_incident_raises:
  "detect_priority_inconsistencies [] = Inr [] \<and>
   detect_priority_inconsistencies [scenario_inconsistent] = Inl IndexError \<and>
   detect_priority_inconsistencies [scenario_consistent] = Inl IndexError \<and>
   detected_at_of NoTime = None \<and> detected_at_of NaNTime = None \<and>
   detected_at_of BadTime = None"
  by code_simp

section \<open>The rolling mean\<close>

text \<open>The one-pass aggregator keeps, after each value, the last \<open>w\<close> values seen and
  their sum; so the mean it gives at position \<open>i\<close> is the mean of the values at
  positions \<open>i + 1 - w\<close> to \<open>i\<close>.\<close>

lemma roll_mean_length: "length (roll_mean w minp win s xs) = length xs"
  by (induction xs arbitrary: win s) (simp_all add: Let_def)

lemma sum_list_tl: "xs \<noteq> [] \<Longrightarrow> sum_list (tl xs) = sum_list xs - (hd xs :: rat)"
  by (cases xs) simp_all

lemma slide_window:
  assumes "0 < w" and "win = drop (length pre - w) pre"
  shows "(if w \<le> length win then tl win else win) @ [x] =
         drop (length (pre @ [x]) - w) (pre @ [x])"
proof (cases "w \<le> length pre")
  case True
  with assms have len: "length win = w" by simp
  from True assms(1) have "Suc (length pre) - w = Suc (length pre - w)" by simp
  moreover have "tl win = drop (Suc (length pre - w)) pre"
    unfolding assms(2) by (simp add: drop_Suc tl_drop)
  ultimately show ?thesis using len True assms(1) by simp
next
  case False
  with assms have "win = pre" and "length win < w" by simp_all
  with False show ?thesis by simp
qed

lemma slide_sum:
  fixes win :: "rat list"
  assumes "0 < w" and "s = sum_list win"
  shows "(if w \<le> length win then s - hd win else s) + x =
         sum_list ((if w \<le> length win then tl win else win) @ [x])"
proof (cases "w \<le> length win")
  case True
  with assms(1) have "win \<noteq> []" by auto
  then have "sum_list (tl win) = sum_list win - hd win" by (rule sum_list_tl)
  with True assms(2) show ?thesis by simp
next
  case False
  with assms(2) show ?thesis by simp
qed

lemma roll_mean_nth:
  assumes "0 < w" and "win = drop (length pre - w) pre" and "s = sum_list win"
    and "i < length xs"
  shows "roll_mean w minp win s xs ! i =
           (let ws = drop (length pre + i + 1 - w) (take (length pre + i + 1) (pre @ xs))
            in if minp \<le> length ws \<and> 0 < length ws
               then Some (sum_list ws / of_nat (length ws)) else None)"
  using assms
proof (induction xs arbitrary: pre win s i)
  case Nil
  then show ?case by simp
next
  case (Cons x xs)
  let ?win2 = "(if w \<le> length win then tl win else win) @ [x]"
  let ?sum2 = "(if w \<le> length win then s - hd win else s) + x"
  have win2: "?win2 = drop (length (pre @ [x]) - w) (pre @ [x])"
    using Cons.prems(1,2) by (rule slide_window)
  have sum2: "?sum2 = sum_list ?win2"
    using Cons.prems(1,3) by (rule slide_sum)
  have step: "roll_mean w minp win s (x # xs) =
      (if minp \<le> length ?win2 \<and> 0 < length ?win2
       then Some (?sum2 / of_nat (length ?win2)) else None)
      # roll_mean w minp ?win2 ?sum2 xs"
    by (simp add: Let_def)
  show ?case
  proof (cases i)
    case 0
    define ws where "ws = drop (length pre + 0 + 1 - w) (take (length pre + 0 + 1) (pre @ x # xs))"
    have "take (length pre + 0 + 1) (pre @ x # xs) = pre @ [x]" by simp
    then have ws: "ws = ?win2"
      unfolding ws_def using win2 by simp
    have "roll_mean w minp win s (x # xs) ! 0 =
        (if minp \<le> length ?win2 \<and> 0 < length ?win2
         then Some (?sum2 / of_nat (length ?win2)) else None)"
      by (simp only: step nth_Cons_0)
    also have "\<dots> = (if minp \<le> length ws \<and> 0 < length ws
         then Some (sum_list ws / of_nat (length ws)) else None)"
      unfolding ws sum2 [symmetric] ..
    finally show ?thesis
      unfolding 0 ws_def Let_def .
  next
    case (Suc j)
    with Cons.prems have j: "j < length xs" by simp
    have "roll_mean w minp ?win2 ?sum2 xs ! j =
           (let ws = drop (length (pre @ [x]) + j + 1 - w)
                       (take (length (pre @ [x]) + j + 1) ((pre @ [x]) @ xs))
            in if minp \<le> length ws \<and> 0 < length ws
               then Some (sum_list ws / of_nat (length ws)) else None)"
      using Cons.prems(1) win2 sum2 j by (rule Cons.IH)
    then show ?thesis
      unfolding Suc step nth_Cons_Suc by simp
  qed
qed

section \<open>The weekly buckets\<close>

lemma trend_records_length: "length (trend_records weekly) = length weekly"
  by (simp add: trend_records_def roll_mean_length)

lemma trend_records_nth:
  assumes "i < length weekly"
  shows "trend_records weekly ! i =
    \<lparr>week = fst (weekly ! i), incident_count = snd (weekly ! i),
     rolling_avg = roll_mean 3 1 [] 0 (map (\<lambda>(w, n). of_nat n) weekly) ! i,
     spike = spike_flag (snd (weekly ! i))
               (roll_mean 3 1 [] 0 (map (\<lambda>(w, n). of_nat n) weekly) ! i)\<rparr>"
  using assms by (simp add: trend_records_def roll_mean_length split: prod.splits)

lemma trend_records_counts: "map incident_count (trend_records weekly) = map snd weekly"
  by (rule nth_equalityI) (simp_all add: trend_records_length trend_records_nth)

lemma trend_records_weeks: "map week (trend_records weekly) = map fst weekly"
  by (rule nth_equalityI) (simp_all add: trend_records_length trend_records_nth)

lemma count_of_pair: "(\<lambda>(w::int, n::nat). (of_nat n :: rat)) = of_nat \<circ> snd"
  by auto

lemma sum_list_of_nat: "sum_list (map of_nat xs) = (of_nat (sum_list xs) :: rat)"
  by (induction xs) simp_all

lemma trend_records_avgs:
  "map rolling_avg (trend_records weekly) =
     roll_mean 3 1 [] 0 (map of_nat (map snd weekly))"
  by (intro nth_equalityI)
     (simp_all add: trend_records_length trend_records_nth roll_mean_length count_of_pair)

lemma trend_records_spikes:
  "map spike (trend_records weekly) =
     map (\<lambda>(n, avg). spike_flag n avg)
       (zip (map snd weekly) (roll_mean 3 1 [] 0 (map of_nat (map snd weekly))))"
  by (intro nth_equalityI)
     (simp_all add: trend_records_length trend_records_nth roll_mean_length count_of_pair)

lemma window_nonempty: "i < length counts \<Longrightarrow> window_counts counts i \<noteq> []"
  by (auto simp: window_counts_def)

lemma roll_mean_is_window_mean:
  assumes "i < length counts"
  shows "roll_mean 3 1 [] 0 (map of_nat counts) ! i = Some (spec_rolling_avg counts i)"
proof -
  have idx: "i + 1 - 3 = i - 2" by simp
  have ws: "drop (length ([]::rat list) + i + 1 - 3)
              (take (length ([]::rat list) + i + 1) ([] @ map of_nat counts)) =
            map of_nat (window_counts counts i)"
    by (simp add: window_counts_def drop_map take_map idx)
  from assms have ne: "0 < length (window_counts counts i)"
    using window_nonempty [of i counts] by simp
  have sum: "sum_list (map of_nat (window_counts counts i)) =
             (of_nat (sum_list (window_counts counts i)) :: rat)"
    by (rule sum_list_of_nat)
  have "roll_mean 3 1 [] 0 (map of_nat counts) ! i =
           (let ws = drop (length ([]::rat list) + i + 1 - 3)
                      (take (length ([]::rat list) + i + 1) ([] @ map of_nat counts))
            in if 1 \<le> length ws \<and> 0 < length ws
               then Some (sum_list ws / of_nat (length ws)) else None)"
    using assms by (intro roll_mean_nth) simp_all
  with ne show ?thesis
    unfolding ws Let_def sum spec_rolling_avg_def by (simp add: Suc_le_eq)
qed

lemma groupby_size_weeks: "sorted_wrt (<) (map fst (groupby_size col))"
  by (simp add: groupby_size_def Let_def comp_def strict_sorted_iff)

lemma compute_weekly_trend_Inr:
  assumes "compute_weekly_trend data = Inr bs"
  obtains ts where "to_datetime_column (map Open_Time data) = Inr ts"
    and "bs = trend_records (groupby_size (map (map_option week_start) ts))"
  using assms by (auto simp: compute_weekly_trend_def split: sum.splits)

lemma to_datetime_column_total:
  "(\<exists>ts. to_datetime_column col = Inr ts) \<longleftrightarrow> BadTime \<notin> set col"
proof (induction col)
  case Nil
  then show ?case by simp
next
  case (Cons c cs)
  then show ?case by (cases c) (auto split: sum.splits)
qed

text \<open>The function returns its buckets unless a cell of the date column is no date.\<close>

lemma compute_weekly_trend_returns:
  "(\<exists>bs. compute_weekly_trend data = Inr bs) \<longleftrightarrow> BadTime \<notin> Open_Time ` set data"
proof -
  have "(\<exists>bs. compute_weekly_trend data = Inr bs) \<longleftrightarrow>
        (\<exists>ts. to_datetime_column (map Open_Time data) = Inr ts)"
    by (auto simp: compute_weekly_trend_def split: sum.splits)
  then show ?thesis by (simp add: to_datetime_column_total)
qed

text \<open>
  C4. For every bucket \<open>compute_weekly_trend\<close> produces, the rolling average is the
  mean of the counts of that bucket and of up to two buckets before it, the buckets being
  in strictly ascending order of their week, and the spike flag says whether the count is
  above 1.5 times that average; when there is a single bucket, its rolling average is its
  own count and it is not flagged.
\<close>

theorem weekly_spike_rule:
  assumes "compute_weekly_trend data = Inr bs" and "i < length bs"
  shows "rolling_avg (bs ! i) = Some (spec_rolling_avg (map incident_count bs) i) \<and>
         spike (bs ! i) =
           (3 / 2 * spec_rolling_avg (map incident_count bs) i < of_nat (incident_count (bs ! i))) \<and>
         sorted_wrt (<) (map week bs) \<and>
         (length bs = 1 \<longrightarrow>
            rolling_avg (bs ! i) = Some (of_nat (incident_count (bs ! i))) \<and> \<not> spike (bs ! i))"
proof -
  from assms(1) obtain ts where
    bs: "bs = trend_records (groupby_size (map (map_option week_start) ts))"
    by (rule compute_weekly_trend_Inr)
  define weekly where "weekly = groupby_size (map (map_option week_start) ts)"
  have bs': "bs = trend_records weekly" by (simp add: bs weekly_def)
  have counts: "map incident_count bs = map snd weekly"
    by (simp add: bs' trend_records_counts)
  from assms(2) have i: "i < length weekly" by (simp add: bs' trend_records_length)
  then have i': "i < length (map snd weekly)" by simp
  have "rolling_avg (bs ! i) = map rolling_avg bs ! i"
    using assms(2) by simp
  also have "\<dots> = roll_mean 3 1 [] 0 (map of_nat (map snd weekly)) ! i"
    by (simp only: bs' trend_records_avgs)
  also have "\<dots> = Some (spec_rolling_avg (map snd weekly) i)"
    using i' by (rule roll_mean_is_window_mean)
  finally have avg: "rolling_avg (bs ! i) = Some (spec_rolling_avg (map incident_count bs) i)"
    by (simp only: counts)
  have n: "incident_count (bs ! i) = snd (weekly ! i)"
    using i by (simp add: bs' trend_records_nth)
  have "spike (bs ! i) = spike_flag (incident_count (bs ! i)) (rolling_avg (bs ! i))"
    using i by (simp add: bs' trend_records_nth)
  then have sp: "spike (bs ! i) =
      (3 / 2 * spec_rolling_avg (map incident_count bs) i < of_nat (incident_count (bs ! i)))"
    by (simp add: avg mult.commute)
  have sorted: "sorted_wrt (<) (map week bs)"
    by (simp add: bs' trend_records_weeks weekly_def groupby_size_weeks)
  have single: "rolling_avg (bs ! i) = Some (of_nat (incident_count (bs ! i))) \<and> \<not> spike (bs ! i)"
    if one: "length bs = 1"
  proof -
    from one assms(2) have i0: "i = 0" by simp
    from one obtain b where b: "bs = [b]" by (cases bs) simp_all
    have "spec_rolling_avg (map incident_count bs) i = of_nat (incident_count b)"
      by (simp add: b i0 spec_rolling_avg_def window_counts_def)
    with avg sp b i0 show ?thesis by simp
  qed
  from avg sp sorted single show ?thesis by blast
qed

theorem weekly_spike_rule_witness:
  "rolling_avg (projr (compute_weekly_trend spike_snapshot) ! 3) = Some 21 \<and>
   spike (projr (compute_weekly_trend spike_snapshot) ! 3) \<and>
   length (projr (compute_weekly_trend one_week_snapshot)) = 1 \<and>
   rolling_avg (projr (compute_weekly_trend one_week_snapshot) ! 0) = Some 7 \<and>
   \<not> spike (projr (compute_weekly_trend one_week_snapshot) ! 0)"
proof -
  let ?bs = "projr (compute_weekly_trend spike_snapshot)"
  let ?one = "projr (compute_weekly_trend one_week_snapshot)"
  have "\<not> isl (compute_weekly_trend spike_snapshot)" by code_simp
  then have run: "compute_weekly_trend spike_snapshot = Inr ?bs"
    by (cases "compute_weekly_trend spike_snapshot") simp_all
  have counts: "map incident_count ?bs = [10, 12, 11, 40]" by code_simp
  then have len: "3 < length ?bs"
    using length_map [of incident_count ?bs] by simp
  have n: "incident_count (?bs ! 3) = 40"
    using nth_map [OF len, of incident_count] counts by simp
  have avg: "spec_rolling_avg [10, 12, 11, 40] 3 = 21" by code_simp
  from weekly_spike_rule [OF run len] counts n avg
  have four: "rolling_avg (?bs ! 3) = Some 21 \<and> spike (?bs ! 3)" by simp
  have "\<not> isl (compute_weekly_trend one_week_snapshot)" by code_simp
  then have run1: "compute_weekly_trend one_week_snapshot = Inr ?one"
    by (cases "compute_weekly_trend one_week_snapshot") simp_all
  have len1: "length ?one = 1" by code_simp
  then have i0: "0 < length ?one" by simp
  have n1: "incident_count (?one ! 0) = 7" by code_simp
  from weekly_spike_rule [OF run1 i0] len1
  have "rolling_avg (?one ! 0) = Some (of_nat (incident_count (?one ! 0))) \<and>
        \<not> spike (?one ! 0)" by blast
  with n1 have single: "rolling_avg (?one ! 0) = Some 7 \<and> \<not> spike (?one ! 0)" by simp
  from four len1 single show ?thesis by simp
qed

text \<open>
  The fourth rolling average of the scenario is the mean of 12, 11 and 40, which is 21 and
  not 11: the window of a bucket holds the bucket itself.
\<close>

theorem spike_scenario_fourth_average:
  "\<not> isl (compute_weekly_trend spike_snapshot) \<and>
   map incident_count (projr (compute_weekly_trend spike_snapshot)) = [10, 12, 11, 40] \<and>
   map rolling_avg (projr (compute_weekly_trend spike_snapshot)) =
     [Some 10, Some 11, Some 11, Some 21] \<and>
   map rolling_avg (projr (compute_weekly_trend spike_snapshot)) \<noteq>
     [Some 10, Some 11, Some 11, Some 11]"
  by code_simp

text \<open>
  C8, as the code has it. For a snapshot whose weekly counts are 10, 12, 11 and 40 in
  order of the weeks, the rolling averages are 10, 11, 11 and 21, week 4 is flagged as a
  spike (40 is above 1.5 times 21, which is 31.5) and weeks 1 to 3 are not.
\<close>

theorem spike_scenario_averages:
  assumes "compute_weekly_trend data = Inr bs"
    and "map incident_count bs = [10, 12, 11, 40]"
  shows "map rolling_avg bs = [Some 10, Some 11, Some 11, Some 21] \<and>
         map spike bs = [False, False, False, True]"
proof -
  from assms(1) obtain ts where
    bs: "bs = trend_records (groupby_size (map (map_option week_start) ts))"
    by (rule compute_weekly_trend_Inr)
  define weekly where "weekly = groupby_size (map (map_option week_start) ts)"
  have bs': "bs = trend_records weekly" by (simp add: bs weekly_def)
  from assms(2) have counts: "map snd weekly = [10, 12, 11, 40]"
    by (simp add: bs' trend_records_counts)
  have roll: "roll_mean 3 1 [] 0 (map of_nat [10, 12, 11, 40::nat]) =
              [Some 10, Some 11, Some 11, Some 21]"
    by (simp add: Let_def)
  show ?thesis
    by (simp add: bs' trend_records_avgs trend_records_spikes counts roll)
qed

theorem spike_scenario_averages_witness:
  "map incident_count (projr (compute_weekly_trend spike_snapshot)) = [10, 12, 11, 40] \<and>
   map rolling_avg (projr (compute_weekly_trend spike_snapshot)) =
     [Some 10, Some 11, Some 11, Some 21] \<and>
   map spike (projr (compute_weekly_trend spike_snapshot)) = [False, False, False, True]"
proof -
  have "\<not> isl (compute_weekly_trend spike_snapshot)" by code_simp
  then have run: "compute_weekly_trend spike_snapshot =
                  Inr (projr (compute_weekly_trend spike_snapshot))"
    by (cases "compute_weekly_trend spike_snapshot") simp_all
  have counts: "map incident_count (projr (compute_weekly_trend spike_snapshot)) =
                [10, 12, 11, 40]"
    by code_simp
  from spike_scenario_averages [OF run counts] counts show ?thesis by simp
qed

end
